theory Spec2Isabelle
  imports Main "HOL-Library.Word" "HOL-Library.Code_Target_Nat"
begin

unbundle bit_operations_syntax

section \<open>Data model\<close>

text \<open>
  \<^verbatim>\<open>boost::asio::ip::address_v4\<close> and \<^verbatim>\<open>address_v6\<close> are values of a fixed byte width
  (\<^verbatim>\<open>bytes_type\<close> is an array of 4, respectively 16, unsigned chars in network order).
  An IPv4 address is kept as its four bytes, an IPv6 address as its 16 bytes in eight
  16-bit groups.

  An \<^verbatim>\<open>address_v6\<close> has a second member, the scope id, which is 0 unless it is set. It
  takes no part in \<^verbatim>\<open>to_bytes\<close>, and the specification's addresses are their bytes
  (equality of network addresses is equality of address bytes and prefix length). The
  addresses here are those with scope id 0, for which \<^verbatim>\<open>to_string\<close> is the text
  \<^verbatim>\<open>inet_ntop\<close> writes for the bytes.
\<close>

datatype address_v4 = Address_v4 "8 word" "8 word" "8 word" "8 word"

datatype address_v6 =
  Address_v6 "16 word" "16 word" "16 word" "16 word" "16 word" "16 word" "16 word" "16 word"

fun to_bytes_v4 :: "address_v4 \<Rightarrow> 8 word list" where
  "to_bytes_v4 (Address_v4 a b c d) = [a, b, c, d]"

definition group_bytes :: "16 word \<Rightarrow> 8 word list" where
  "group_bytes g = [ucast (drop_bit 8 g), ucast g]"

fun groups_v6 :: "address_v6 \<Rightarrow> 16 word list" where
  "groups_v6 (Address_v6 g0 g1 g2 g3 g4 g5 g6 g7) = [g0, g1, g2, g3, g4, g5, g6, g7]"

definition to_bytes_v6 :: "address_v6 \<Rightarrow> 8 word list" where
  "to_bytes_v6 a = concat (map group_bytes (groups_v6 a))"

text \<open>
  \<^verbatim>\<open>base_ip_network_address<AddressType>\<close>: the address and an \<^verbatim>\<open>unsigned int\<close> prefix
  length. The two-argument constructor stores both as they are.
\<close>

record 'a base_ip_network_address =
  m_address :: 'a
  m_prefix_length :: "32 word"

definition make_network_address :: "'a \<Rightarrow> 32 word \<Rightarrow> 'a base_ip_network_address" where
  "make_network_address address' prefix_length' =
     \<lparr>m_address = address', m_prefix_length = prefix_length'\<rparr>"

section \<open>Containment: \<^verbatim>\<open>base_ip_network_address::has_address\<close>\<close>

text \<open>
  The \<^verbatim>\<open>for\<close> loop of \<^verbatim>\<open>has_address\<close>, with the index \<open>i\<close> and the remaining prefix
  bits \<open>prefix_len\<close> as loop state. \<^verbatim>\<open>break\<close> leaves the loop for the final
  \<^verbatim>\<open>return true\<close>. The mask is computed on values below 256, where the promoted
  \<^verbatim>\<open>int\<close> arithmetic of the source and 8-bit words agree.
\<close>

function has_address_loop :: "8 word list \<Rightarrow> 8 word list \<Rightarrow> nat \<Rightarrow> 32 word \<Rightarrow> bool" where
  "has_address_loop network_bytes addr_bytes i prefix_len =
     (if i < length network_bytes then
        (if prefix_len \<ge> 8 then
           (if network_bytes ! i \<noteq> addr_bytes ! i then False
            else has_address_loop network_bytes addr_bytes (i + 1) (prefix_len - 8))
         else
           (let mask = drop_bit (unat prefix_len) (0xFF :: 8 word) XOR 0xFF in
            if (network_bytes ! i AND mask) \<noteq> (addr_bytes ! i AND mask) then False
            else True))
      else True)"
  by pat_completeness auto
termination
  by (relation "measure (\<lambda>(network_bytes, addr_bytes, i, prefix_len). length network_bytes - i)") auto

declare has_address_loop.simps [simp del]

definition has_address ::
  "('a \<Rightarrow> 8 word list) \<Rightarrow> 'a base_ip_network_address \<Rightarrow> 'a \<Rightarrow> bool" where
  "has_address bytes_of self addr =
     has_address_loop (bytes_of (m_address self)) (bytes_of addr) 0 (m_prefix_length self)"

definition has_address_v4 :: "address_v4 base_ip_network_address \<Rightarrow> address_v4 \<Rightarrow> bool" where
  "has_address_v4 = has_address to_bytes_v4"

definition has_address_v6 :: "address_v6 base_ip_network_address \<Rightarrow> address_v6 \<Rightarrow> bool" where
  "has_address_v6 = has_address to_bytes_v6"

text \<open>
  The containment walk as the specification words it: a remaining-bits counter, whole
  bytes while at least 8 bits remain, the top \<open>remaining\<close> bits under the mask
  \<open>0xFF << (8 - remaining)\<close> when 1 to 7 bits remain, and \<open>True\<close> when none remain.
\<close>

fun contains_spec :: "nat \<Rightarrow> 8 word list \<Rightarrow> 8 word list \<Rightarrow> bool" where
  "contains_spec remaining (n # ns) (a # as) =
     (if remaining \<ge> 8 then (if n = a then contains_spec (remaining - 8) ns as else False)
      else if 1 \<le> remaining then
        (n AND push_bit (8 - remaining) (0xFF :: 8 word)) =
        (a AND push_bit (8 - remaining) (0xFF :: 8 word))
      else True)"
| "contains_spec remaining [] as = True"
| "contains_spec remaining ns [] = True"

section \<open>Polymorphic containment and the membership helper\<close>

text \<open>
  \<^verbatim>\<open>boost::asio::ip::address\<close> is either an IPv4 or an IPv6 address; \<^verbatim>\<open>to_v4\<close> and
  \<^verbatim>\<open>to_v6\<close> throw \<^verbatim>\<open>std::bad_cast\<close> on the other family.
  \<^verbatim>\<open>ip_network_address\<close> is the variant over the two network address types.
\<close>

datatype error = bad_cast | bad_lexical_cast | system_error

datatype ip_address = Ip_v4 address_v4 | Ip_v6 address_v6

datatype ip_network_address =
  Ipv4_network_address "address_v4 base_ip_network_address"
| Ipv6_network_address "address_v6 base_ip_network_address"

fun is_v4 :: "ip_address \<Rightarrow> bool" where
  "is_v4 (Ip_v4 a) = True"
| "is_v4 (Ip_v6 a) = False"

fun is_v6 :: "ip_address \<Rightarrow> bool" where
  "is_v6 (Ip_v4 a) = False"
| "is_v6 (Ip_v6 a) = True"

fun to_v4 :: "ip_address \<Rightarrow> error + address_v4" where
  "to_v4 (Ip_v4 a) = Inr a"
| "to_v4 (Ip_v6 a) = Inl bad_cast"

fun to_v6 :: "ip_address \<Rightarrow> error + address_v6" where
  "to_v6 (Ip_v4 a) = Inl bad_cast"
| "to_v6 (Ip_v6 a) = Inr a"

text \<open>
  \<^verbatim>\<open>ip_network_address_has_address_visitor\<close>: one \<^verbatim>\<open>operator()\<close> per alternative of the
  variant. The \<^verbatim>\<open>&&\<close> evaluates the conversion only when the family test holds.
\<close>

fun has_address_visitor :: "ip_address \<Rightarrow> ip_network_address \<Rightarrow> error + bool" where
  "has_address_visitor m_addr (Ipv4_network_address ina) =
     (if is_v4 m_addr then
        (case to_v4 m_addr of Inl e \<Rightarrow> Inl e | Inr a \<Rightarrow> Inr (has_address_v4 ina a))
      else Inr False)"
| "has_address_visitor m_addr (Ipv6_network_address ina) =
     (if is_v6 m_addr then
        (case to_v6 m_addr of Inl e \<Rightarrow> Inl e | Inr a \<Rightarrow> Inr (has_address_v6 ina a))
      else Inr False)"

definition has_address_variant :: "ip_network_address \<Rightarrow> ip_address \<Rightarrow> error + bool" where
  "has_address_variant ina addr = has_address_visitor addr ina"

text \<open>
  The range overload \<^verbatim>\<open>has_address(begin, end, addr)\<close>. The element test \<open>has\<close> is the
  overload of \<^verbatim>\<open>has_address\<close> chosen for the element type; a test that throws ends
  the loop with that error.
\<close>

fun has_address_range :: "('n \<Rightarrow> 'a \<Rightarrow> error + bool) \<Rightarrow> 'n list \<Rightarrow> 'a \<Rightarrow> error + bool" where
  "has_address_range has [] addr = Inr False"
| "has_address_range has (x # xs) addr =
     (case has x addr of
        Inl e \<Rightarrow> Inl e
      | Inr b \<Rightarrow> if b then Inr True else has_address_range has xs addr)"

text \<open>
  The same loop, returning the elements on which the element test was evaluated, in
  the order of evaluation.
\<close>

fun has_address_range_tested :: "('n \<Rightarrow> 'a \<Rightarrow> error + bool) \<Rightarrow> 'n list \<Rightarrow> 'a \<Rightarrow> 'n list" where
  "has_address_range_tested has [] addr = []"
| "has_address_range_tested has (x # xs) addr =
     (case has x addr of
        Inl e \<Rightarrow> [x]
      | Inr b \<Rightarrow> if b then [x] else x # has_address_range_tested has xs addr)"

section \<open>Input streams\<close>

text \<open>
  A \<^verbatim>\<open>std::istream\<close> is the characters not yet extracted and the three state bits.
  \<^verbatim>\<open>good()\<close> holds when no bit is set; the boolean conversion used by \<^verbatim>\<open>if (is)\<close> is
  \<^verbatim>\<open>!fail()\<close>, which ignores \<^verbatim>\<open>eofbit\<close>.
\<close>

record istream =
  unread :: string
  eofbit :: bool
  failbit :: bool
  badbit :: bool

definition istringstream :: "string \<Rightarrow> istream" where
  "istringstream s = \<lparr>unread = s, eofbit = False, failbit = False, badbit = False\<rparr>"

definition good :: "istream \<Rightarrow> bool" where
  "good is = (\<not> eofbit is \<and> \<not> failbit is \<and> \<not> badbit is)"

definition fail :: "istream \<Rightarrow> bool" where
  "fail is = (failbit is \<or> badbit is)"

text \<open>
  \<^verbatim>\<open>peek()\<close> returns the next character without extracting it, or end-of-file
  (\<open>None\<close>), which sets \<^verbatim>\<open>eofbit\<close>; \<^verbatim>\<open>ignore()\<close> extracts one character. On a stream
  that is not good the sentry of either sets \<^verbatim>\<open>failbit\<close>.
\<close>

definition peek :: "istream \<Rightarrow> istream \<times> char option" where
  "peek is =
     (if good is then
        (case unread is of
           [] \<Rightarrow> (is\<lparr>eofbit := True\<rparr>, None)
         | c # cs \<Rightarrow> (is, Some c))
      else (is\<lparr>failbit := True\<rparr>, None))"

definition ignore :: "istream \<Rightarrow> istream" where
  "ignore is =
     (if good is then
        (case unread is of
           [] \<Rightarrow> is\<lparr>eofbit := True\<rparr>
         | c # cs \<Rightarrow> is\<lparr>unread := cs\<rparr>)
      else is\<lparr>failbit := True\<rparr>)"

definition setstate_failbit :: "istream \<Rightarrow> istream" where
  "setstate_failbit is = is\<lparr>failbit := True\<rparr>"

definition clear :: "istream \<Rightarrow> istream" where
  "clear is = is\<lparr>eofbit := False, failbit := False, badbit := False\<rparr>"

text \<open>
  Modelled from the spec: \<^verbatim>\<open>putback(is, str)\<close> is declared in
  \<^verbatim>\<open>stream_operations.hpp\<close> ("Put back some characters in an input stream") and its
  body is missing. The characters of \<open>str\<close> become the next characters to be read;
  the state bits are left as they are.
\<close>

definition putback :: "istream \<Rightarrow> string \<Rightarrow> istream" where
  "putback is str = is\<lparr>unread := str @ unread is\<rparr>"

section \<open>Decimal numbers\<close>

text \<open>
  \<^verbatim>\<open>os << std::dec << n\<close> for an \<^verbatim>\<open>unsigned int\<close>: the decimal digits, most significant
  first, no leading zero.
\<close>

definition digit_char :: "nat \<Rightarrow> char" where
  "digit_char d = char_of (48 + d)"

definition is_digit :: "char \<Rightarrow> bool" where
  "is_digit c = (48 \<le> (of_char c :: nat) \<and> (of_char c :: nat) \<le> 57)"

definition digit_value :: "char \<Rightarrow> nat" where
  "digit_value c = of_char c - 48"

function dec :: "nat \<Rightarrow> string" where
  "dec n = (if n < 10 then [digit_char n] else dec (n div 10) @ [digit_char (n mod 10)])"
  by pat_completeness auto
termination
  by (relation "measure id") auto

declare dec.simps [simp del]

definition digits_value :: "string \<Rightarrow> nat" where
  "digits_value s = foldl (\<lambda>acc c. 10 * acc + digit_value c) 0 s"

text \<open>
  \<^verbatim>\<open>boost::lexical_cast<unsigned int>\<close> on the strings that reach it here: a non-empty
  string of decimal digits whose value fits 32 bits is converted, anything else throws
  \<^verbatim>\<open>bad_lexical_cast\<close>.
\<close>

definition lexical_cast_unsigned :: "string \<Rightarrow> error + 32 word" where
  "lexical_cast_unsigned s =
     (if s \<noteq> [] \<and> list_all is_digit s \<and> digits_value s < 2 ^ 32
      then Inr (of_nat (digits_value s))
      else Inl bad_lexical_cast)"

section \<open>Parsing and printing network addresses\<close>

text \<open>
  What \<^verbatim>\<open>operator>>\<close> uses of its template parameter \<^verbatim>\<open>AddressType\<close>: the
  conversion from text of the address class (\<^verbatim>\<open>from_string\<close> throws on a malformed text),
  and the two readers \<^verbatim>\<open>read_ip_address<AddressType>\<close> and \<^verbatim>\<open>read_prefix_length<AddressType>\<close>,
  which are declared in \<^verbatim>\<open>stream_operations.hpp\<close> and whose bodies are missing. A reader
  takes the stream and its string argument and returns both as the call leaves them.
\<close>

record 'a address_type =
  from_string :: "string \<Rightarrow> error + 'a"
  read_ip_address :: "istream \<Rightarrow> string \<Rightarrow> istream \<times> string"
  read_prefix_length :: "istream \<Rightarrow> string \<Rightarrow> istream \<times> string"

text \<open>
  Modelled from the spec: the contract of the two missing readers. Parsing is
  all-or-nothing: a reader called on a good stream either succeeds, having extracted
  exactly the characters it returns, or fails, leaving the input position where it was.
\<close>

definition reader_contract :: "(istream \<Rightarrow> string \<Rightarrow> istream \<times> string) \<Rightarrow> bool" where
  "reader_contract rd =
     (\<forall>is out. good is \<longrightarrow>
        (case rd is out of (is', s) \<Rightarrow>
           if fail is' then unread is' = unread is else unread is = s @ unread is'))"

text \<open>
  \<^verbatim>\<open>read_ip_address_prefix_length\<close>. The result is the stream and the two string
  arguments as the call leaves them. \<^verbatim>\<open>peek\<close> is evaluated only on a good stream.
\<close>

definition read_ip_address_prefix_length ::
  "'a address_type \<Rightarrow> istream \<Rightarrow> string \<Rightarrow> string \<Rightarrow> istream \<times> string \<times> string" where
  "read_ip_address_prefix_length A is ip_address prefix_length =
     (if good is then
        (case read_ip_address A is ip_address of (is1, ip_address1) \<Rightarrow>
           if \<not> fail is1 then
             (case (if good is1 then peek is1 else (is1, None)) of (is2, c) \<Rightarrow>
                if good is1 \<and> c = Some CHR ''/'' then
                  (case read_prefix_length A (ignore is2) prefix_length of (is3, prefix_length1) \<Rightarrow>
                     if fail is3 then
                       (setstate_failbit (putback is3 (ip_address1 @ ''/'')),
                        ip_address1, prefix_length1)
                     else (is3, ip_address1, prefix_length1))
                else
                  (setstate_failbit (putback is2 ip_address1), ip_address1, prefix_length))
           else (is1, ip_address1, prefix_length))
      else (is, ip_address, prefix_length))"

text \<open>
  \<^verbatim>\<open>operator>>\<close> for \<^verbatim>\<open>base_ip_network_address<AddressType>\<close>. The result is the
  exception in flight, if any, the stream, and the caller's value as the call leaves
  it. C++ leaves the order of the two constructor arguments open; here the address is
  converted first.
\<close>

definition operator_in ::
  "'a address_type \<Rightarrow> istream \<Rightarrow> 'a base_ip_network_address \<Rightarrow>
   error option \<times> istream \<times> 'a base_ip_network_address" where
  "operator_in A is val =
     (case read_ip_address_prefix_length A is [] [] of (is1, ip_address, prefix_length) \<Rightarrow>
        if \<not> fail is1 then
          (case from_string A ip_address of
             Inl e \<Rightarrow> (Some e, is1, val)
           | Inr a \<Rightarrow>
               (case lexical_cast_unsigned prefix_length of
                  Inl e \<Rightarrow> (Some e, is1, val)
                | Inr n \<Rightarrow> (None, is1, make_network_address a n)))
        else (None, is1, val))"

text \<open>The three parts of the result of an extraction.\<close>

abbreviation thrown :: "error option \<times> istream \<times> 'v \<Rightarrow> error option" where
  "thrown r \<equiv> fst r"

abbreviation stream_of :: "error option \<times> istream \<times> 'v \<Rightarrow> istream" where
  "stream_of r \<equiv> fst (snd r)"

abbreviation value_of :: "error option \<times> istream \<times> 'v \<Rightarrow> 'v" where
  "value_of r \<equiv> snd (snd r)"

text \<open>
  \<^verbatim>\<open>operator<<\<close> for \<^verbatim>\<open>base_ip_network_address<AddressType>\<close>, on the text written so
  far; \<open>to_string\<close> is the address class's conversion to text.
\<close>

definition operator_out :: "('a \<Rightarrow> string) \<Rightarrow> string \<Rightarrow> 'a base_ip_network_address \<Rightarrow> string" where
  "operator_out to_string os val =
     os @ to_string (m_address val) @ ''/'' @ dec (unat (m_prefix_length val))"

text \<open>The default constructor: the all-zero address and prefix length 0.\<close>

definition null_v4 :: "address_v4 base_ip_network_address" where
  "null_v4 = make_network_address (Address_v4 0 0 0 0) 0"

definition null_v6 :: "address_v6 base_ip_network_address" where
  "null_v6 = make_network_address (Address_v6 0 0 0 0 0 0 0 0) 0"

text \<open>
  \<^verbatim>\<open>operator>>\<close> for the variant \<^verbatim>\<open>ip_network_address\<close>, in its two blocks: the IPv6
  attempt, then the IPv4 attempt. Each block that fails ends with \<^verbatim>\<open>is.clear()\<close>.
\<close>

definition operator_in_v4_block ::
  "address_v4 address_type \<Rightarrow> istream \<Rightarrow> ip_network_address \<Rightarrow>
   error option \<times> istream \<times> ip_network_address" where
  "operator_in_v4_block A4 is val =
     (if \<not> fail is then
        (case operator_in A4 is null_v4 of
           (Some e, is1, ina) \<Rightarrow> (Some e, is1, val)
         | (None, is1, ina) \<Rightarrow>
             if \<not> fail is1 then (None, is1, Ipv4_network_address ina)
             else (None, clear is1, val))
      else (None, is, val))"

definition operator_in_variant ::
  "address_v6 address_type \<Rightarrow> address_v4 address_type \<Rightarrow> istream \<Rightarrow> ip_network_address \<Rightarrow>
   error option \<times> istream \<times> ip_network_address" where
  "operator_in_variant A6 A4 is val =
     (if \<not> fail is then
        (case operator_in A6 is null_v6 of
           (Some e, is1, ina) \<Rightarrow> (Some e, is1, val)
         | (None, is1, ina) \<Rightarrow>
             if \<not> fail is1 then (None, is1, Ipv6_network_address ina)
             else operator_in_v4_block A4 (clear is1) val)
      else operator_in_v4_block A4 is val)"

section \<open>The two address families\<close>

text \<open>
  Modelled from the spec: the bodies of \<^verbatim>\<open>read_ip_address\<close> and \<^verbatim>\<open>read_prefix_length\<close>
  are missing. This reader takes the longest run of characters of the token's alphabet;
  when the run is an acceptable text it is extracted (reaching the end of the input sets
  \<^verbatim>\<open>eofbit\<close>), otherwise the stream fails and nothing is extracted.
\<close>

definition read_token ::
  "(char \<Rightarrow> bool) \<Rightarrow> (string \<Rightarrow> bool) \<Rightarrow> istream \<Rightarrow> string \<Rightarrow> istream \<times> string" where
  "read_token is_token_char acceptable is out =
     (if good is then
        (let result = takeWhile is_token_char (unread is);
             rest = dropWhile is_token_char (unread is)
         in if acceptable result then (is\<lparr>unread := rest, eofbit := (rest = [])\<rparr>, result)
            else (is\<lparr>failbit := True\<rparr>, out))
      else (is, out))"

fun split_on :: "char \<Rightarrow> string \<Rightarrow> string list" where
  "split_on d [] = [[]]"
| "split_on d (c # cs) =
     (if c = d then [] # split_on d cs
      else (case split_on d cs of [] \<Rightarrow> [[c]] | p # ps \<Rightarrow> (c # p) # ps))"

fun join_with :: "char \<Rightarrow> string list \<Rightarrow> string" where
  "join_with d [] = []"
| "join_with d [p] = p"
| "join_with d (p # q # ps) = p @ d # join_with d (q # ps)"

text \<open>
  The text conversions of the two address classes are the C library's \<^verbatim>\<open>inet_ntop\<close> and
  \<^verbatim>\<open>inet_pton\<close>. IPv4 text is dotted decimal: four decimal numbers up to 255, without
  leading zeros, separated by dots.
\<close>

fun to_string_v4 :: "address_v4 \<Rightarrow> string" where
  "to_string_v4 (Address_v4 a b c d) =
     join_with CHR ''.'' [dec (unat a), dec (unat b), dec (unat c), dec (unat d)]"

definition octet :: "string \<Rightarrow> 8 word option" where
  "octet p =
     (if length p \<le> 3 \<and> digits_value p \<le> 255 \<and> dec (digits_value p) = p
      then Some (of_nat (digits_value p)) else None)"

definition from_string_v4 :: "string \<Rightarrow> error + address_v4" where
  "from_string_v4 s =
     (case map octet (split_on CHR ''.'' s) of
        [Some a, Some b, Some c, Some d] \<Rightarrow> Inr (Address_v4 a b c d)
      | _ \<Rightarrow> Inl system_error)"

definition is_v4_char :: "char \<Rightarrow> bool" where
  "is_v4_char c = (is_digit c \<or> c = CHR ''.'')"

definition ipv4 :: "address_v4 address_type" where
  "ipv4 =
     \<lparr>from_string = from_string_v4,
      read_ip_address = read_token is_v4_char (\<lambda>s. \<not> isl (from_string_v4 s)),
      read_prefix_length = read_token is_digit (\<lambda>s. s \<noteq> [])\<rparr>"

text \<open>
  IPv6 text, read as \<^verbatim>\<open>inet_pton\<close> (glibc) reads it: up to eight groups of one to four
  hexadecimal digits separated by colons, at most one \<open>::\<close> standing for one or more
  zero groups, and in place of the last two groups possibly an IPv4 dotted quad. A text
  with a \<open>%\<close> suffix (a scope id) is outside the model: it is rejected here, as
  \<^verbatim>\<open>inet_pton\<close> rejects it, and the readers below never pass one on.
\<close>

definition hex_char :: "nat \<Rightarrow> char" where
  "hex_char d = ''0123456789abcdef'' ! d"

definition hex_value :: "char \<Rightarrow> nat option" where
  "hex_value c =
     (let n = (of_char c :: nat) in
      if 48 \<le> n \<and> n \<le> 57 then Some (n - 48)
      else if 97 \<le> n \<and> n \<le> 102 then Some (n - 87)
      else if 65 \<le> n \<and> n \<le> 70 then Some (n - 55)
      else None)"

function hex :: "nat \<Rightarrow> string" where
  "hex n = (if n < 16 then [hex_char n] else hex (n div 16) @ [hex_char (n mod 16)])"
  by pat_completeness auto
termination
  by (relation "measure id") auto

declare hex.simps [simp del]

definition hex_group :: "string \<Rightarrow> 16 word option" where
  "hex_group p =
     (if p \<noteq> [] \<and> length p \<le> 4 \<and> list_all (\<lambda>c. hex_value c \<noteq> None) p
      then Some (of_nat (foldl (\<lambda>acc c. 16 * acc + the (hex_value c)) 0 p))
      else None)"

definition hex_parts :: "string list \<Rightarrow> 16 word list option" where
  "hex_parts ps =
     (let gs = map hex_group ps
      in if list_all (\<lambda>g. g \<noteq> None) gs then Some (map the gs) else None)"

definition group_of_bytes :: "8 word \<Rightarrow> 8 word \<Rightarrow> 16 word" where
  "group_of_bytes hi lo = push_bit 8 (ucast hi) OR ucast lo"

text \<open>The groups before a \<open>::\<close>: hexadecimal only.\<close>

definition hex_groups :: "string \<Rightarrow> 16 word list option" where
  "hex_groups s = (if s = [] then Some [] else hex_parts (split_on CHR '':'' s))"

text \<open>The groups up to the end of the text: the last part may be a dotted quad.\<close>

definition tail_groups :: "string \<Rightarrow> 16 word list option" where
  "tail_groups s =
     (if s = [] then Some []
      else (let ps = split_on CHR '':'' s in
            if CHR ''.'' \<in> set (last ps) then
              (case (hex_parts (butlast ps), from_string_v4 (last ps)) of
                 (Some gs, Inr (Address_v4 a b c d)) \<Rightarrow>
                   Some (gs @ [group_of_bytes a b, group_of_bytes c d])
               | _ \<Rightarrow> None)
            else hex_parts ps))"

fun split_gap :: "string \<Rightarrow> (string \<times> string) option" where
  "split_gap (c # c' # cs) =
     (if c = CHR '':'' \<and> c' = CHR '':'' then Some ([], cs)
      else map_option (\<lambda>(l, r). (c # l, r)) (split_gap (c' # cs)))"
| "split_gap cs = None"

fun address_of_groups :: "16 word list \<Rightarrow> error + address_v6" where
  "address_of_groups [g0, g1, g2, g3, g4, g5, g6, g7] = Inr (Address_v6 g0 g1 g2 g3 g4 g5 g6 g7)"
| "address_of_groups gs = Inl system_error"

definition from_string_v6 :: "string \<Rightarrow> error + address_v6" where
  "from_string_v6 s =
     (case split_gap s of
        None \<Rightarrow> (case tail_groups s of None \<Rightarrow> Inl system_error | Some gs \<Rightarrow> address_of_groups gs)
      | Some (l, r) \<Rightarrow>
          (case (hex_groups l, tail_groups r) of
             (Some gl, Some gr) \<Rightarrow>
               if length gl + length gr \<le> 7
               then address_of_groups (gl @ replicate (8 - (length gl + length gr)) 0 @ gr)
               else Inl system_error
           | _ \<Rightarrow> Inl system_error))"

text \<open>
  IPv6 text, written as \<^verbatim>\<open>inet_ntop\<close> (glibc) writes it: the groups in lower-case hexadecimal
  without leading zeros, separated by colons, with the leftmost longest run of two or
  more zero groups written \<open>::\<close>. When that run is the first six groups, or the first
  five followed by \<open>ffff\<close>, the last two groups are written as an IPv4 dotted quad.
\<close>

definition zero_run :: "16 word list \<Rightarrow> nat \<Rightarrow> nat" where
  "zero_run gs i = length (takeWhile (\<lambda>g. g = 0) (drop i gs))"

definition longest_zero_run :: "16 word list \<Rightarrow> nat \<times> nat" where
  "longest_zero_run gs =
     foldl (\<lambda>(start, len) i. if len < zero_run gs i then (i, zero_run gs i) else (start, len))
       (0, 0) [0..<length gs]"

definition dotted_quad :: "16 word \<Rightarrow> 16 word \<Rightarrow> string" where
  "dotted_quad g6 g7 =
     to_string_v4
       (Address_v4 (ucast (drop_bit 8 g6)) (ucast g6) (ucast (drop_bit 8 g7)) (ucast g7))"

definition to_string_v6 :: "address_v6 \<Rightarrow> string" where
  "to_string_v6 a =
     (let gs = groups_v6 a in
      case longest_zero_run gs of (start, len) \<Rightarrow>
        if start = 0 \<and> len = 6 then ''::'' @ dotted_quad (gs ! 6) (gs ! 7)
        else if start = 0 \<and> len = 5 \<and> gs ! 5 = 0xFFFF
        then ''::ffff:'' @ dotted_quad (gs ! 6) (gs ! 7)
        else if 2 \<le> len
        then join_with CHR '':'' (map (hex \<circ> unat) (take start gs)) @ ''::'' @
             join_with CHR '':'' (map (hex \<circ> unat) (drop (start + len) gs))
        else join_with CHR '':'' (map (hex \<circ> unat) gs))"

definition is_v6_char :: "char \<Rightarrow> bool" where
  "is_v6_char c = (hex_value c \<noteq> None \<or> c = CHR '':'' \<or> c = CHR ''.'')"

definition ipv6 :: "address_v6 address_type" where
  "ipv6 =
     \<lparr>from_string = from_string_v6,
      read_ip_address = read_token is_v6_char (\<lambda>s. \<not> isl (from_string_v6 s)),
      read_prefix_length = read_token is_digit (\<lambda>s. s \<noteq> [])\<rparr>"

section \<open>Properties of containment\<close>

lemma length_to_bytes_v4: "length (to_bytes_v4 a) = 4"
  by (cases a) simp

lemma length_to_bytes_v6: "length (to_bytes_v6 a) = 16"
  by (cases a) (simp add: to_bytes_v6_def group_bytes_def)

lemma mask_top_bits:
  "n < 8 \<Longrightarrow> drop_bit n (0xFF :: 8 word) XOR 0xFF = (if n = 0 then 0 else push_bit (8 - n) 0xFF)"
proof -
  assume "n < 8"
  then consider "n = 0" | "n = 1" | "n = 2" | "n = 3" | "n = 4" | "n = 5" | "n = 6" | "n = 7"
    by linarith
  then show ?thesis
    by cases simp_all
qed

lemma unat_sub_8: "(8 :: 32 word) \<le> p \<Longrightarrow> unat (p - 8) = unat p - 8"
  by (simp add: unat_sub)

lemma unat_ge_8: "((8 :: 32 word) \<le> p) = (8 \<le> unat p)"
  by (simp add: word_le_nat_alt)

lemma has_address_loop_spec:
  "length ns = length as \<Longrightarrow> i \<le> length ns \<Longrightarrow>
   has_address_loop ns as i p = contains_spec (unat p) (drop i ns) (drop i as)"
proof (induction ns as i p rule: has_address_loop.induct)
  case (1 ns as i p)
  show ?case
  proof (cases "i < length ns")
    case False
    then show ?thesis
      by (subst has_address_loop.simps) simp
  next
    case True
    with "1.prems" have dn: "drop i ns = ns ! i # drop (Suc i) ns"
      and da: "drop i as = as ! i # drop (Suc i) as"
      by (simp_all add: Cons_nth_drop_Suc)
    show ?thesis
    proof (cases "8 \<le> p")
      case ge: True
      show ?thesis
      proof (cases "ns ! i = as ! i")
        case eq: True
        have "has_address_loop ns as (i + 1) (p - 8) =
              contains_spec (unat (p - 8)) (drop (i + 1) ns) (drop (i + 1) as)"
          using "1.IH" [OF True ge] eq "1.prems" True by simp
        then show ?thesis
          using True ge eq dn da
          by (subst has_address_loop.simps) (simp add: unat_sub_8 unat_ge_8)
      next
        case False
        then show ?thesis
          using True ge dn da
          by (subst has_address_loop.simps) (simp add: unat_ge_8)
      qed
    next
      case lt: False
      then have small: "unat p < 8"
        by (simp add: unat_ge_8)
      show ?thesis
        using True lt small dn da
        by (subst has_address_loop.simps) (auto simp: mask_top_bits Let_def unat_ge_8)
    qed
  qed
qed

lemma has_address_loop_full:
  "length ns = length as \<Longrightarrow> i \<le> length ns \<Longrightarrow> 8 * (length ns - i) \<le> unat p \<Longrightarrow>
   has_address_loop ns as i p = (drop i ns = drop i as)"
proof (induction ns as i p rule: has_address_loop.induct)
  case (1 ns as i p)
  show ?case
  proof (cases "i < length ns")
    case False
    with "1.prems" show ?thesis
      by (subst has_address_loop.simps) simp
  next
    case True
    with "1.prems" have dn: "drop i ns = ns ! i # drop (Suc i) ns"
      and da: "drop i as = as ! i # drop (Suc i) as"
      by (simp_all add: Cons_nth_drop_Suc)
    from True "1.prems" have ge: "8 \<le> p"
      by (simp add: unat_ge_8)
    show ?thesis
    proof (cases "ns ! i = as ! i")
      case eq: True
      have "8 * (length ns - (i + 1)) \<le> unat (p - 8)"
        using "1.prems" True ge by (simp add: unat_sub_8)
      then have "has_address_loop ns as (i + 1) (p - 8) = (drop (i + 1) ns = drop (i + 1) as)"
        using "1.IH" [OF True ge] eq "1.prems" True by simp
      then show ?thesis
        using True ge eq dn da
        by (subst has_address_loop.simps) simp
    next
      case False
      then show ?thesis
        using True ge dn da
        by (subst has_address_loop.simps) simp
    qed
  qed
qed


lemma has_address_loop_zero: "has_address_loop ns as i 0 = True"
  by (subst has_address_loop.simps) simp

text \<open>
  C2: for a network address and a probe of the same family, \<open>has_address\<close> is the walk
  the specification describes: bytes left to right with a remaining-bits counter that
  starts at the prefix length; whole-byte equality and a decrement of 8 while at least
  8 bits remain; a comparison under the mask \<open>0xFF << (8 - remaining)\<close> that decides
  the result when 1 to 7 bits remain; \<open>True\<close> when none remain.
\<close>

theorem has_address_is_prefix_walk:
  "has_address_v4 self4 probe4 =
     contains_spec (unat (m_prefix_length self4)) (to_bytes_v4 (m_address self4)) (to_bytes_v4 probe4)
   \<and> has_address_v6 self6 probe6 =
     contains_spec (unat (m_prefix_length self6)) (to_bytes_v6 (m_address self6)) (to_bytes_v6 probe6)"
proof
  show "has_address_v4 self4 probe4 =
     contains_spec (unat (m_prefix_length self4)) (to_bytes_v4 (m_address self4)) (to_bytes_v4 probe4)"
    using has_address_loop_spec [of "to_bytes_v4 (m_address self4)" "to_bytes_v4 probe4" 0]
    by (simp add: has_address_v4_def has_address_def length_to_bytes_v4)
  show "has_address_v6 self6 probe6 =
     contains_spec (unat (m_prefix_length self6)) (to_bytes_v6 (m_address self6)) (to_bytes_v6 probe6)"
    using has_address_loop_spec [of "to_bytes_v6 (m_address self6)" "to_bytes_v6 probe6" 0]
    by (simp add: has_address_v6_def has_address_def length_to_bytes_v6)
qed

text \<open>
  C7: a network address whose prefix length is at least the bit width of its family (32
  for IPv4, 128 for IPv6) contains a probe exactly when the probe's bytes equal its own
  bytes. Such prefix lengths are not rejected: the constructor stores any prefix length.
\<close>

theorem full_prefix_is_exact_match:
  "(32 \<le> m_prefix_length self4 \<longrightarrow>
      has_address_v4 self4 probe4 = (to_bytes_v4 probe4 = to_bytes_v4 (m_address self4)))
   \<and> (128 \<le> m_prefix_length self6 \<longrightarrow>
      has_address_v6 self6 probe6 = (to_bytes_v6 probe6 = to_bytes_v6 (m_address self6)))
   \<and> m_prefix_length (make_network_address a p) = p"
proof (intro conjI impI)
  assume "32 \<le> m_prefix_length self4"
  then have "8 * (length (to_bytes_v4 (m_address self4)) - 0) \<le> unat (m_prefix_length self4)"
    by (simp add: length_to_bytes_v4 word_le_nat_alt)
  then show "has_address_v4 self4 probe4 = (to_bytes_v4 probe4 = to_bytes_v4 (m_address self4))"
    using has_address_loop_full [of "to_bytes_v4 (m_address self4)" "to_bytes_v4 probe4" 0]
    by (auto simp: has_address_v4_def has_address_def length_to_bytes_v4)
next
  assume "128 \<le> m_prefix_length self6"
  then have "8 * (length (to_bytes_v6 (m_address self6)) - 0) \<le> unat (m_prefix_length self6)"
    by (simp add: length_to_bytes_v6 word_le_nat_alt)
  then show "has_address_v6 self6 probe6 = (to_bytes_v6 probe6 = to_bytes_v6 (m_address self6))"
    using has_address_loop_full [of "to_bytes_v6 (m_address self6)" "to_bytes_v6 probe6" 0]
    by (auto simp: has_address_v6_def has_address_def length_to_bytes_v6)
next
  show "m_prefix_length (make_network_address a p) = p"
    by (simp add: make_network_address_def)
qed

theorem full_prefix_is_exact_match_witness:
  "(32 :: 32 word) \<le> 40
   \<and> has_address_v4 (make_network_address (Address_v4 10 0 0 1) 40) (Address_v4 10 0 0 1)
   \<and> \<not> has_address_v4 (make_network_address (Address_v4 10 0 0 1) 40) (Address_v4 10 0 0 2)
   \<and> (128 :: 32 word) \<le> 128
   \<and> has_address_v6 (make_network_address (Address_v6 0 0 0 0 0 0 0 1) 128)
        (Address_v6 0 0 0 0 0 0 0 1)
   \<and> \<not> has_address_v6 (make_network_address (Address_v6 0 0 0 0 0 0 0 1) 128)
        (Address_v6 0 0 0 0 0 0 1 1)"
  using
    full_prefix_is_exact_match [of "make_network_address (Address_v4 10 0 0 1) 40"
      "Address_v4 10 0 0 1" "make_network_address (Address_v6 0 0 0 0 0 0 0 1) 128"
      "Address_v6 0 0 0 0 0 0 0 1"]
    full_prefix_is_exact_match [of "make_network_address (Address_v4 10 0 0 1) 40"
      "Address_v4 10 0 0 2" "make_network_address (Address_v6 0 0 0 0 0 0 0 1) 128"
      "Address_v6 0 0 0 0 0 0 1 1"]
  by (simp add: make_network_address_def to_bytes_v6_def group_bytes_def)

text \<open>
  C8: a network address with prefix length 0 contains every address of its family,
  whatever its own address bytes are.
\<close>

theorem zero_prefix_contains_every_address:
  "has_address_v4 (self4\<lparr>m_prefix_length := 0\<rparr>) probe4
   \<and> has_address_v6 (self6\<lparr>m_prefix_length := 0\<rparr>) probe6"
  by (simp add: has_address_v4_def has_address_v6_def has_address_def has_address_loop_zero)

text \<open>
  C6: containment across families is \<open>False\<close>, returned without an error: an IPv4
  network never contains an IPv6 probe and an IPv6 network never contains an IPv4 probe,
  whatever the addresses and prefix lengths are.
\<close>

theorem cross_family_containment_is_false:
  "has_address_variant (Ipv4_network_address ina4) (Ip_v6 probe6) = Inr False
   \<and> has_address_variant (Ipv6_network_address ina6) (Ip_v4 probe4) = Inr False"
  by (simp add: has_address_variant_def)

lemma has_address_variant_total: "\<exists>b. has_address_variant ina addr = Inr b"
  by (cases ina; cases addr) (auto simp: has_address_variant_def)

lemma has_address_range_none:
  "\<forall>x \<in> set xs. has x addr = Inr False \<Longrightarrow> has_address_range has xs addr = Inr False"
  by (induction xs) simp_all

lemma has_address_range_first:
  "\<forall>y \<in> set pre. has y addr = Inr False \<Longrightarrow> has x addr = Inr True \<Longrightarrow>
   has_address_range has (pre @ x # post) addr = Inr True"
  by (induction pre) simp_all

lemma has_address_range_tested_first:
  "\<forall>y \<in> set pre. has y addr = Inr False \<Longrightarrow> has x addr = Inr True \<Longrightarrow>
   has_address_range_tested has (pre @ x # post) addr = pre @ [x]"
  by (induction pre) simp_all

text \<open>
  C9: the membership helper goes through the sequence in order. At the first element
  whose containment test is true it returns true, and the test has been evaluated on
  the elements up to that one only; when no element contains the probe, in particular
  on the empty sequence, it returns false.
\<close>

theorem membership_short_circuit:
  "has_address_range has [] addr = Inr False
   \<and> ((\<forall>x \<in> set xs. has x addr = Inr False) \<longrightarrow> has_address_range has xs addr = Inr False)
   \<and> ((\<forall>y \<in> set pre. has y addr = Inr False) \<and> has x addr = Inr True \<longrightarrow>
        has_address_range has (pre @ x # post) addr = Inr True
        \<and> has_address_range_tested has (pre @ x # post) addr = pre @ [x])"
  using has_address_range_none [of xs has addr]
    has_address_range_first [of pre has addr x post]
    has_address_range_tested_first [of pre has addr x post]
  by simp

theorem membership_short_circuit_witness:
  "has_address_variant (Ipv4_network_address (make_network_address (Address_v4 10 0 0 0) 8))
     (Ip_v4 (Address_v4 192 168 1 200)) = Inr False
   \<and> has_address_variant (Ipv4_network_address (make_network_address (Address_v4 192 168 1 0) 24))
     (Ip_v4 (Address_v4 192 168 1 200)) = Inr True
   \<and> has_address_range has_address_variant
        [Ipv4_network_address (make_network_address (Address_v4 10 0 0 0) 8),
         Ipv4_network_address (make_network_address (Address_v4 192 168 1 0) 24),
         Ipv6_network_address (make_network_address (Address_v6 0 0 0 0 0 0 0 0) 0)]
        (Ip_v4 (Address_v4 192 168 1 200)) = Inr True
   \<and> has_address_range_tested has_address_variant
        [Ipv4_network_address (make_network_address (Address_v4 10 0 0 0) 8),
         Ipv4_network_address (make_network_address (Address_v4 192 168 1 0) 24),
         Ipv6_network_address (make_network_address (Address_v6 0 0 0 0 0 0 0 0) 0)]
        (Ip_v4 (Address_v4 192 168 1 200)) =
        [Ipv4_network_address (make_network_address (Address_v4 10 0 0 0) 8),
         Ipv4_network_address (make_network_address (Address_v4 192 168 1 0) 24)]
   \<and> has_address_range has_address_variant
        [Ipv4_network_address (make_network_address (Address_v4 10 0 0 0) 8),
         Ipv6_network_address (make_network_address (Address_v6 0 0 0 0 0 0 0 0) 0)]
        (Ip_v4 (Address_v4 192 168 1 200)) = Inr False"
proof -
  let ?A = "Ipv4_network_address (make_network_address (Address_v4 10 0 0 0) 8)"
  let ?B = "Ipv4_network_address (make_network_address (Address_v4 192 168 1 0) 24)"
  let ?C = "Ipv6_network_address (make_network_address (Address_v6 0 0 0 0 0 0 0 0) 0)"
  let ?probe = "Ip_v4 (Address_v4 192 168 1 200)"
  have a: "has_address_variant ?A ?probe = Inr False"
    by code_simp
  have b: "has_address_variant ?B ?probe = Inr True"
    by code_simp
  have c: "has_address_variant ?C ?probe = Inr False"
    by code_simp
  show ?thesis
    using a b c
      membership_short_circuit [of has_address_variant ?probe "[?A, ?C]" "[?A]" ?B "[?C]"]
    by simp
qed

section \<open>Properties of parsing\<close>

subsection \<open>Restoring the input position\<close>

lemma peek_unread: "unread (fst (peek is)) = unread is"
  by (simp add: peek_def split: list.split)

lemma peek_Some:
  "good is \<Longrightarrow> snd (peek is) = Some c \<Longrightarrow> fst (peek is) = is \<and> (\<exists>cs. unread is = c # cs)"
  by (auto simp: peek_def split: list.splits)

lemma ignore_Cons:
  "good is \<Longrightarrow> unread is = c # cs \<Longrightarrow> ignore is = is\<lparr>unread := cs\<rparr>"
  by (simp add: ignore_def)

lemma good_unread_update: "good (is\<lparr>unread := cs\<rparr>) = good is"
  by (simp add: good_def)


lemma unread_setstate_putback: "unread (setstate_failbit (putback is str)) = str @ unread is"
  by (simp add: setstate_failbit_def putback_def)

lemma reader_contractD:
  assumes "reader_contract rd" and "good is" and "rd is out = (is', s)"
  shows "if fail is' then unread is' = unread is else unread is = s @ unread is'"
proof -
  from assms(1) have
    "\<forall>out. good is \<longrightarrow>
       (case rd is out of (is', s) \<Rightarrow>
          if fail is' then unread is' = unread is else unread is = s @ unread is')"
    unfolding reader_contract_def by (rule spec)
  then have
    "good is \<longrightarrow>
       (case rd is out of (is', s) \<Rightarrow>
          if fail is' then unread is' = unread is else unread is = s @ unread is')"
    by (rule spec)
  with assms(2,3) show ?thesis
    by simp
qed

lemma read_ip_address_prefix_length_restores:
  assumes ca: "reader_contract (read_ip_address A)"
    and cp: "reader_contract (read_prefix_length A)"
    and g: "good is"
    and f: "fail (fst (read_ip_address_prefix_length A is ip0 pl0))"
  shows "unread (fst (read_ip_address_prefix_length A is ip0 pl0)) = unread is"
proof -
  obtain is1 ip1 where r1: "read_ip_address A is ip0 = (is1, ip1)"
    by (cases "read_ip_address A is ip0")
  note c1 = reader_contractD [OF ca g r1]
  show ?thesis
  proof (cases "fail is1")
    case True
    with c1 g r1 show ?thesis
      by (simp add: read_ip_address_prefix_length_def)
  next
    case nf: False
    with c1 have u: "unread is = ip1 @ unread is1"
      by simp
    show ?thesis
    proof (cases "good is1 \<and> snd (peek is1) = Some CHR ''/''")
      case False
      obtain is2 c where pk: "(if good is1 then peek is1 else (is1, None)) = (is2, c)"
        by (cases "if good is1 then peek is1 else (is1, None)")
      then have u2: "unread is2 = unread is1"
        using peek_unread [of is1] by (auto split: if_splits)
      from pk False have "\<not> (good is1 \<and> c = Some CHR ''/'')"
        by (auto split: if_splits)
      then have "read_ip_address_prefix_length A is ip0 pl0 =
          (setstate_failbit (putback is2 ip1), ip1, pl0)"
        using g r1 nf pk by (auto simp: read_ip_address_prefix_length_def)
      then show ?thesis
        using u u2 by (simp add: unread_setstate_putback)
    next
      case True
      then obtain cs where p: "fst (peek is1) = is1" and us: "unread is1 = CHR ''/'' # cs"
        using peek_Some [of is1 "CHR ''/''"] by blast
      from True us have ig: "ignore is1 = is1\<lparr>unread := cs\<rparr>"
        by (simp add: ignore_Cons)
      obtain is3 pl1 where r3: "read_prefix_length A (is1\<lparr>unread := cs\<rparr>) pl0 = (is3, pl1)"
        by (cases "read_prefix_length A (is1\<lparr>unread := cs\<rparr>) pl0")
      from True have g3: "good (is1\<lparr>unread := cs\<rparr>)"
        by (simp add: good_unread_update)
      note c3 = reader_contractD [OF cp g3 r3]
      have res: "read_ip_address_prefix_length A is ip0 pl0 =
          (if fail is3 then (setstate_failbit (putback is3 (ip1 @ ''/'')), ip1, pl1)
           else (is3, ip1, pl1))"
        using g r1 nf True p ig r3
        by (cases "peek is1") (simp add: read_ip_address_prefix_length_def)
      show ?thesis
      proof (cases "fail is3")
        case True
        with c3 res u us show ?thesis
          by (simp add: unread_setstate_putback)
      next
        case False
        with res f show ?thesis
          by simp
      qed
    qed
  qed
qed


lemma clear_restored: "good is \<Longrightarrow> unread is' = unread is \<Longrightarrow> clear is' = is"
  by (cases "is"; cases is') (simp add: clear_def good_def)


lemma operator_in_stream:
  "fst (snd (operator_in A is val)) = fst (read_ip_address_prefix_length A is [] [])"
  by (simp add: operator_in_def split: prod.splits sum.splits)


subsection \<open>The caller's value and the variant extraction\<close>

lemma operator_in_unchanged:
  "operator_in A is val = (e, is', val') \<Longrightarrow> e \<noteq> None \<or> fail is' \<Longrightarrow> val' = val"
  by (auto simp: operator_in_def split: prod.splits sum.splits if_splits)

lemma operator_in_v4_block_cases:
  "operator_in_v4_block A4 is val = (e, is', val') \<Longrightarrow>
   val' = val
   \<or> (e = None \<and> \<not> fail is' \<and>
       (\<exists>ina. operator_in A4 is null_v4 = (None, is', ina) \<and> val' = Ipv4_network_address ina))"
  by (auto simp: operator_in_v4_block_def split: prod.splits option.splits if_splits)

lemma operator_in_variant_cases:
  "operator_in_variant A6 A4 is val = (e, is', val') \<Longrightarrow>
   val' = val
   \<or> (e = None \<and> \<not> fail is' \<and>
       (\<exists>ina. operator_in A6 is null_v6 = (None, is', ina) \<and> val' = Ipv6_network_address ina))
   \<or> (e = None \<and> \<not> fail is' \<and>
       (\<exists>is0 ina. (is0 = is \<or> is0 = clear (stream_of (operator_in A6 is null_v6)))
          \<and> operator_in A4 is0 null_v4 = (None, is', ina) \<and> val' = Ipv4_network_address ina))"
  by (auto simp: operator_in_variant_def split: prod.splits option.splits if_splits
      dest: operator_in_v4_block_cases)

lemma operator_in_variant_v6:
  "\<not> fail is \<Longrightarrow> operator_in A6 is null_v6 = (None, is1, ina) \<Longrightarrow> \<not> fail is1 \<Longrightarrow>
   operator_in_variant A6 A4 is val = (None, is1, Ipv6_network_address ina)"
  by (simp add: operator_in_variant_def)

lemma operator_in_variant_v4:
  assumes g: "good is"
    and r6: "operator_in A6 is null_v6 = (None, is1, x)"
    and f6: "fail is1"
    and u6: "unread is1 = unread is"
    and r4: "operator_in A4 is null_v4 = (None, is2, ina)"
    and nf4: "\<not> fail is2"
  shows "clear is1 = is \<and> operator_in_variant A6 A4 is val = (None, is2, Ipv4_network_address ina)"
proof -
  from u6 have c: "clear is1 = is"
    by (rule clear_restored [OF g])
  from g have "\<not> fail is"
    by (simp add: good_def fail_def)
  then show ?thesis
    using r6 f6 r4 nf4 c
    by (simp add: operator_in_variant_def operator_in_v4_block_def)
qed

lemma operator_in_restores:
  assumes "reader_contract (read_ip_address A)" and "reader_contract (read_prefix_length A)"
    and "good is" and "fail (stream_of (operator_in A is val))"
  shows "unread (stream_of (operator_in A is val)) = unread is"
  using assms read_ip_address_prefix_length_restores [of A "is" "[]" "[]"]
  by (simp add: operator_in_stream)

lemma operator_in_variant_both_fail:
  assumes "\<not> fail is"
    and "operator_in A6 is null_v6 = (None, is1, x)" and "fail is1"
    and "operator_in A4 (clear is1) null_v4 = (None, is2, y)" and "fail is2"
  shows "operator_in_variant A6 A4 is val = (None, clear is2, val) \<and> good (clear is2)"
proof -
  have "\<not> fail (clear is1)" and "good (clear is2)"
    by (simp_all add: clear_def fail_def good_def)
  with assms show ?thesis
    by (simp add: operator_in_variant_def operator_in_v4_block_def)
qed

subsection \<open>The modelled readers meet the contract\<close>





text \<open>
  When \<^verbatim>\<open>read_ip_address_prefix_length\<close> has succeeded, the address text converts, and
  \<^verbatim>\<open>lexical_cast<unsigned int>\<close> rejects the prefix length text, \<^verbatim>\<open>operator>>\<close> throws
  \<^verbatim>\<open>bad_lexical_cast\<close>: the stream is as the readers left it, with the characters of the
  address, the \<open>/\<close> and the prefix length extracted.
\<close>

lemma operator_in_prefix_out_of_range:
  assumes "read_ip_address_prefix_length A is [] [] = (is1, ip_address, prefix_length)"
    and "\<not> fail is1"
    and "from_string A ip_address = Inr a"
    and "lexical_cast_unsigned prefix_length = Inl e"
  shows "operator_in A is val = (Some e, is1, val)"
  using assms by (simp add: operator_in_def)


text \<open>
  C10: a failed extraction leaves the caller's value as it was. For a family-specific
  network address, an extraction that throws or leaves the stream failed returns the
  value unchanged. For the variant, the value after the call is the value before it
  unless one of the two family extractions succeeded, and then it is that extraction's
  result.
\<close>

theorem failed_parse_keeps_value:
  "(thrown (operator_in A is val) \<noteq> None \<or> fail (stream_of (operator_in A is val)) \<longrightarrow>
      value_of (operator_in A is val) = val)
   \<and> (value_of (operator_in_variant A6 A4 uis uval) = uval
      \<or> (thrown (operator_in_variant A6 A4 uis uval) = None
          \<and> \<not> fail (stream_of (operator_in_variant A6 A4 uis uval))
          \<and> (\<exists>ina.
                operator_in A6 uis null_v6 =
                  (None, stream_of (operator_in_variant A6 A4 uis uval), ina)
                \<and> value_of (operator_in_variant A6 A4 uis uval) = Ipv6_network_address ina))
      \<or> (thrown (operator_in_variant A6 A4 uis uval) = None
          \<and> \<not> fail (stream_of (operator_in_variant A6 A4 uis uval))
          \<and> (\<exists>is0 ina.
                (is0 = uis \<or> is0 = clear (stream_of (operator_in A6 uis null_v6)))
                \<and> operator_in A4 is0 null_v4 =
                  (None, stream_of (operator_in_variant A6 A4 uis uval), ina)
                \<and> value_of (operator_in_variant A6 A4 uis uval) = Ipv4_network_address ina)))"
proof
  show "thrown (operator_in A is val) \<noteq> None \<or> fail (stream_of (operator_in A is val)) \<longrightarrow>
      value_of (operator_in A is val) = val"
    using operator_in_unchanged [of A "is" val "thrown (operator_in A is val)"
        "stream_of (operator_in A is val)" "value_of (operator_in A is val)"]
    by simp
next
  let ?r = "operator_in_variant A6 A4 uis uval"
  show "value_of ?r = uval
      \<or> (thrown ?r = None \<and> \<not> fail (stream_of ?r)
          \<and> (\<exists>ina. operator_in A6 uis null_v6 = (None, stream_of ?r, ina)
                \<and> value_of ?r = Ipv6_network_address ina))
      \<or> (thrown ?r = None \<and> \<not> fail (stream_of ?r)
          \<and> (\<exists>is0 ina. (is0 = uis \<or> is0 = clear (stream_of (operator_in A6 uis null_v6)))
                \<and> operator_in A4 is0 null_v4 = (None, stream_of ?r, ina)
                \<and> value_of ?r = Ipv4_network_address ina))"
    using operator_in_variant_cases [of A6 A4 uis uval "thrown ?r" "stream_of ?r" "value_of ?r"]
    by simp
qed

theorem failed_parse_keeps_value_witness:
  "fail (stream_of (operator_in ipv4 (istringstream ''10.0.0.1'')
      (make_network_address (Address_v4 192 168 1 0) 24)))
   \<and> value_of (operator_in ipv4 (istringstream ''10.0.0.1'')
      (make_network_address (Address_v4 192 168 1 0) 24)) =
      make_network_address (Address_v4 192 168 1 0) 24
   \<and> thrown (operator_in ipv4 (istringstream ''10.0.0.1/99999999999'')
      (make_network_address (Address_v4 192 168 1 0) 24)) = Some bad_lexical_cast
   \<and> value_of (operator_in ipv4 (istringstream ''10.0.0.1/99999999999'')
      (make_network_address (Address_v4 192 168 1 0) 24)) =
      make_network_address (Address_v4 192 168 1 0) 24"
proof -
  let ?v = "make_network_address (Address_v4 192 168 1 0) 24"
  have f: "fail (stream_of (operator_in ipv4 (istringstream ''10.0.0.1'') ?v))"
    by code_simp
  have t: "thrown (operator_in ipv4 (istringstream ''10.0.0.1/99999999999'') ?v) =
      Some bad_lexical_cast"
    by code_simp
  show ?thesis
    using f t
      failed_parse_keeps_value [of ipv4 "istringstream ''10.0.0.1''" ?v]
      failed_parse_keeps_value [of ipv4 "istringstream ''10.0.0.1/99999999999''" ?v]
    by simp
qed


text \<open>
  C5: the variant extraction tries the IPv6 family first; when that succeeds its result
  is wrapped and returned, whatever the IPv4 family would do. When it fails with the
  input position back where it was, clearing the state gives the IPv4 attempt the
  stream the call started with: on a text that the IPv6 family rejects and the IPv4
  family accepts, the result is the IPv4 extraction's, with IPv4 as the active family.
\<close>

theorem variant_parse_falls_back_to_ipv4:
  "(\<not> fail is \<and> thrown (operator_in A6 is null_v6) = None
      \<and> \<not> fail (stream_of (operator_in A6 is null_v6)) \<longrightarrow>
      operator_in_variant A6 A4 is val =
        (None, stream_of (operator_in A6 is null_v6),
         Ipv6_network_address (value_of (operator_in A6 is null_v6))))
   \<and> (good is
      \<and> thrown (operator_in A6 is null_v6) = None \<and> fail (stream_of (operator_in A6 is null_v6))
      \<and> unread (stream_of (operator_in A6 is null_v6)) = unread is
      \<and> thrown (operator_in A4 is null_v4) = None
      \<and> \<not> fail (stream_of (operator_in A4 is null_v4)) \<longrightarrow>
      clear (stream_of (operator_in A6 is null_v6)) = is
      \<and> operator_in_variant A6 A4 is val =
        (None, stream_of (operator_in A4 is null_v4),
         Ipv4_network_address (value_of (operator_in A4 is null_v4))))"
proof (intro conjI impI)
  assume "\<not> fail is \<and> thrown (operator_in A6 is null_v6) = None
      \<and> \<not> fail (stream_of (operator_in A6 is null_v6))"
  then show "operator_in_variant A6 A4 is val =
        (None, stream_of (operator_in A6 is null_v6),
         Ipv6_network_address (value_of (operator_in A6 is null_v6)))"
    using operator_in_variant_v6 [of "is" A6 "stream_of (operator_in A6 is null_v6)"
        "value_of (operator_in A6 is null_v6)" A4 val]
    by (cases "operator_in A6 is null_v6") simp
next
  assume h: "good is
      \<and> thrown (operator_in A6 is null_v6) = None \<and> fail (stream_of (operator_in A6 is null_v6))
      \<and> unread (stream_of (operator_in A6 is null_v6)) = unread is
      \<and> thrown (operator_in A4 is null_v4) = None
      \<and> \<not> fail (stream_of (operator_in A4 is null_v4))"
  then have r6: "operator_in A6 is null_v6 =
      (None, stream_of (operator_in A6 is null_v6), value_of (operator_in A6 is null_v6))"
    and r4: "operator_in A4 is null_v4 =
      (None, stream_of (operator_in A4 is null_v4), value_of (operator_in A4 is null_v4))"
    by (cases "operator_in A6 is null_v6", simp, cases "operator_in A4 is null_v4", simp)
  from h operator_in_variant_v4 [OF _ r6 _ _ r4, of val]
  have both: "clear (stream_of (operator_in A6 is null_v6)) = is
      \<and> operator_in_variant A6 A4 is val =
        (None, stream_of (operator_in A4 is null_v4),
         Ipv4_network_address (value_of (operator_in A4 is null_v4)))"
    by blast
  from both show "clear (stream_of (operator_in A6 is null_v6)) = is" ..
  from both show "operator_in_variant A6 A4 is val =
        (None, stream_of (operator_in A4 is null_v4),
         Ipv4_network_address (value_of (operator_in A4 is null_v4)))" ..
qed

theorem variant_parse_falls_back_to_ipv4_witness:
  "thrown (operator_in ipv6 (istringstream ''10.0.0.1/8'') null_v6) = None
   \<and> fail (stream_of (operator_in ipv6 (istringstream ''10.0.0.1/8'') null_v6))
   \<and> unread (stream_of (operator_in ipv6 (istringstream ''10.0.0.1/8'') null_v6)) = ''10.0.0.1/8''
   \<and> operator_in ipv4 (istringstream ''10.0.0.1/8'') null_v4 =
       (None, \<lparr>unread = [], eofbit = True, failbit = False, badbit = False\<rparr>,
        make_network_address (Address_v4 10 0 0 1) 8)
   \<and> operator_in_variant ipv6 ipv4 (istringstream ''10.0.0.1/8'')
       (Ipv6_network_address null_v6) =
       (None, \<lparr>unread = [], eofbit = True, failbit = False, badbit = False\<rparr>,
        Ipv4_network_address (make_network_address (Address_v4 10 0 0 1) 8))
   \<and> operator_in ipv6 (istringstream ''::1/128'') null_v6 =
       (None, \<lparr>unread = [], eofbit = True, failbit = False, badbit = False\<rparr>,
        make_network_address (Address_v6 0 0 0 0 0 0 0 1) 128)
   \<and> operator_in_variant ipv6 ipv4 (istringstream ''::1/128'')
       (Ipv4_network_address null_v4) =
       (None, \<lparr>unread = [], eofbit = True, failbit = False, badbit = False\<rparr>,
        Ipv6_network_address (make_network_address (Address_v6 0 0 0 0 0 0 0 1) 128))"
proof -
  let ?is = "istringstream ''10.0.0.1/8''"
  let ?eof = "\<lparr>unread = [], eofbit = True, failbit = False, badbit = False\<rparr>"
  have g: "good ?is" "\<not> fail (istringstream ''::1/128'')"
    by code_simp+
  have t6: "thrown (operator_in ipv6 ?is null_v6) = None"
    by code_simp
  have f6: "fail (stream_of (operator_in ipv6 ?is null_v6))"
    by code_simp
  have u6: "unread (stream_of (operator_in ipv6 ?is null_v6)) = unread ?is"
    by code_simp
  have r4: "operator_in ipv4 ?is null_v4 = (None, ?eof, make_network_address (Address_v4 10 0 0 1) 8)"
    by code_simp
  have r6: "operator_in ipv6 (istringstream ''::1/128'') null_v6 =
      (None, ?eof, make_network_address (Address_v6 0 0 0 0 0 0 0 1) 128)"
    by code_simp
  have nf: "\<not> fail ?eof"
    by code_simp
  show ?thesis
    using g t6 f6 u6 r4 r6 nf
      variant_parse_falls_back_to_ipv4 [of ?is ipv6 ipv4 "Ipv6_network_address null_v6"]
      variant_parse_falls_back_to_ipv4 [of "istringstream ''::1/128''" ipv6 ipv4
        "Ipv4_network_address null_v4"]
    by (simp add: istringstream_def)
qed

text \<open>
  C1: when both family extractions fail, the variant extraction returns with the state
  bits cleared: the stream is good, nothing is thrown, and the value is the one passed
  in. The failure of the two family extractions is not visible to the caller.
\<close>

theorem variant_parse_failure_is_cleared:
  "\<not> fail is
   \<and> thrown (operator_in A6 is null_v6) = None \<and> fail (stream_of (operator_in A6 is null_v6))
   \<and> thrown (operator_in A4 (clear (stream_of (operator_in A6 is null_v6))) null_v4) = None
   \<and> fail (stream_of (operator_in A4 (clear (stream_of (operator_in A6 is null_v6))) null_v4))
   \<longrightarrow>
   operator_in_variant A6 A4 is val =
     (None,
      clear (stream_of (operator_in A4 (clear (stream_of (operator_in A6 is null_v6))) null_v4)),
      val)
   \<and> good (stream_of (operator_in_variant A6 A4 is val))"
proof
  let ?r6 = "operator_in A6 is null_v6"
  let ?r4 = "operator_in A4 (clear (stream_of ?r6)) null_v4"
  assume h: "\<not> fail is
    \<and> thrown ?r6 = None \<and> fail (stream_of ?r6) \<and> thrown ?r4 = None \<and> fail (stream_of ?r4)"
  then have r6: "?r6 = (None, stream_of ?r6, value_of ?r6)"
    and r4: "?r4 = (None, stream_of ?r4, value_of ?r4)"
    by (cases ?r6, simp, cases ?r4, simp)
  from h operator_in_variant_both_fail [OF _ r6 _ r4, of val]
  show "operator_in_variant A6 A4 is val = (None, clear (stream_of ?r4), val)
    \<and> good (stream_of (operator_in_variant A6 A4 is val))"
    by simp
qed

theorem variant_parse_failure_is_cleared_witness:
  "fail (stream_of (operator_in ipv6 (istringstream ''10.0.0.1'') null_v6))
   \<and> fail (stream_of (operator_in ipv4 (istringstream ''10.0.0.1'') null_v4))
   \<and> operator_in_variant ipv6 ipv4 (istringstream ''10.0.0.1'') (Ipv4_network_address null_v4) =
       (None, istringstream ''10.0.0.1'', Ipv4_network_address null_v4)
   \<and> good (stream_of (operator_in_variant ipv6 ipv4 (istringstream ''10.0.0.1'')
       (Ipv4_network_address null_v4)))"
proof -
  let ?is = "istringstream ''10.0.0.1''"
  have nf: "\<not> fail ?is"
    by code_simp
  have t6: "thrown (operator_in ipv6 ?is null_v6) = None"
    by code_simp
  have f6: "fail (stream_of (operator_in ipv6 ?is null_v6))"
    by code_simp
  have c6: "clear (stream_of (operator_in ipv6 ?is null_v6)) = ?is"
    by code_simp
  have t4: "thrown (operator_in ipv4 ?is null_v4) = None"
    by code_simp
  have f4: "fail (stream_of (operator_in ipv4 ?is null_v4))"
    by code_simp
  have c4: "clear (stream_of (operator_in ipv4 ?is null_v4)) = ?is"
    by code_simp
  show ?thesis
    using nf t6 f6 c6 t4 f4 c4
      variant_parse_failure_is_cleared [of ?is ipv6 ipv4 "Ipv4_network_address null_v4"]
    by (simp add: istringstream_def good_def)
qed

section \<open>Printing and reading back\<close>

subsection \<open>Decimal numbers\<close>

lemma digit_value_digit_char: "d < 10 \<Longrightarrow> digit_value (digit_char d) = d"
  by (simp add: digit_value_def digit_char_def)

lemma is_digit_digit_char: "d < 10 \<Longrightarrow> is_digit (digit_char d)"
  by (simp add: is_digit_def digit_char_def)

lemma digits_value_snoc: "digits_value (s @ [c]) = 10 * digits_value s + digit_value c"
  by (simp add: digits_value_def)

lemma dec_not_empty: "dec n \<noteq> []"
  by (subst dec.simps) simp

lemma digits_value_dec: "digits_value (dec n) = n"
proof (induction n rule: dec.induct)
  case (1 n)
  show ?case
  proof (cases "n < 10")
    case True
    then show ?thesis
      by (subst dec.simps) (simp add: digits_value_def digit_value_digit_char)
  next
    case False
    with "1.IH" show ?thesis
      by (subst dec.simps) (simp add: digits_value_snoc digit_value_digit_char)
  qed
qed

lemma is_digit_dec: "list_all is_digit (dec n)"
proof (induction n rule: dec.induct)
  case (1 n)
  show ?case
  proof (cases "n < 10")
    case True
    then show ?thesis
      by (subst dec.simps) (simp add: is_digit_digit_char)
  next
    case False
    with "1.IH" show ?thesis
      by (subst dec.simps) (simp add: is_digit_digit_char)
  qed
qed

lemma lexical_cast_unsigned_dec: "lexical_cast_unsigned (dec (unat (w :: 32 word))) = Inr w"
proof -
  have "unat w < 2 ^ 32"
    using unsigned_less [of w] by simp
  then show ?thesis
    by (simp add: lexical_cast_unsigned_def dec_not_empty is_digit_dec digits_value_dec)
qed

subsection \<open>Reading what was printed, for any readers that take it\<close>

lemma peek_Cons: "good is \<Longrightarrow> unread is = c # cs \<Longrightarrow> peek is = (is, Some c)"
  by (simp add: peek_def)

lemma good_not_fail: "good is \<Longrightarrow> \<not> fail is"
  by (simp add: good_def fail_def)

lemma good_istringstream: "good (istringstream s)"
  by (simp add: good_def istringstream_def)

lemma operator_in_operator_out:
  assumes codec: "from_string A (to_string (m_address v)) = Inr (m_address v)"
    and addr: "read_ip_address A (istringstream (operator_out to_string [] v)) [] =
        (is1, to_string (m_address v))"
    and g1: "good is1"
    and u1: "unread is1 = CHR ''/'' # dec (unat (m_prefix_length v))"
    and len: "read_prefix_length A (ignore is1) [] = (is2, dec (unat (m_prefix_length v)))"
    and nf2: "\<not> fail is2"
  shows "operator_in A (istringstream (operator_out to_string [] v)) val = (None, is2, v)"
proof -
  have "read_ip_address_prefix_length A (istringstream (operator_out to_string [] v)) [] [] =
      (is2, to_string (m_address v), dec (unat (m_prefix_length v)))"
    using addr g1 len nf2 peek_Cons [OF g1 u1] good_not_fail [OF g1]
    by (simp add: read_ip_address_prefix_length_def good_istringstream)
  moreover have "make_network_address (m_address v) (m_prefix_length v) = v"
    by (simp add: make_network_address_def)
  ultimately show ?thesis
    using codec nf2 by (simp add: operator_in_def lexical_cast_unsigned_dec)
qed


subsection \<open>IPv4 text\<close>

lemma split_on_sep: "d \<notin> set p \<Longrightarrow> split_on d (p @ d # rest) = p # split_on d rest"
  by (induction p) auto

lemma split_on_none: "d \<notin> set p \<Longrightarrow> split_on d p = [p]"
  by (induction p) auto

lemma is_digit_set_dec: "c \<in> set (dec n) \<Longrightarrow> is_digit c"
  using is_digit_dec [of n] by (simp add: list_all_iff)

lemma dot_not_in_dec: "CHR ''.'' \<notin> set (dec n)"
  using is_digit_set_dec [of "CHR ''.''" n] by (auto simp: is_digit_def)

lemma length_dec_octet: "n < 256 \<Longrightarrow> length (dec n) \<le> 3"
proof -
  assume n: "n < 256"
  have one: "length (dec m) = 1" if "m < 10" for m
    using that by (subst dec.simps) simp
  have two: "length (dec m) \<le> 2" if "m < 100" for m
    using that one [of "m div 10"] one [of m] by (subst dec.simps) auto
  show ?thesis
    using n two [of "n div 10"] one [of n] by (subst dec.simps) auto
qed

lemma octet_dec: "octet (dec (unat (a :: 8 word))) = Some a"
proof -
  have "unat a < 256"
    using unsigned_less [of a] by simp
  then show ?thesis
    by (simp add: octet_def digits_value_dec length_dec_octet)
qed

lemma from_string_v4_to_string_v4: "from_string_v4 (to_string_v4 a) = Inr a"
proof (cases a)
  case (Address_v4 a b c d)
  have "split_on CHR ''.'' (to_string_v4 (Address_v4 a b c d)) =
      [dec (unat a), dec (unat b), dec (unat c), dec (unat d)]"
    by (simp add: split_on_sep split_on_none dot_not_in_dec)
  then show ?thesis
    using Address_v4 by (simp add: from_string_v4_def octet_dec)
qed

lemma is_v4_char_to_string_v4: "c \<in> set (to_string_v4 a) \<Longrightarrow> is_v4_char c"
  by (cases a) (auto simp: is_v4_char_def dest: is_digit_set_dec)

subsection \<open>The token reader on a text it accepts\<close>

lemma read_token_accepts:
  assumes "good is" and "unread is = t @ x # rest"
    and "\<And>c. c \<in> set t \<Longrightarrow> is_token_char c" and "\<not> is_token_char x" and "acceptable t"
  shows "read_token is_token_char acceptable is out = (is\<lparr>unread := x # rest\<rparr>, t)"
proof -
  have "takeWhile is_token_char (t @ x # rest) = t"
    and "dropWhile is_token_char (t @ x # rest) = x # rest"
    using assms(3,4) by simp_all
  with assms(1,2,5) show ?thesis
    by (cases "is") (simp add: read_token_def good_def)
qed

lemma read_token_accepts_to_end:
  assumes "good is" and "unread is = t"
    and "\<And>c. c \<in> set t \<Longrightarrow> is_token_char c" and "acceptable t"
  shows "read_token is_token_char acceptable is out = (is\<lparr>unread := [], eofbit := True\<rparr>, t)"
proof -
  have tw: "takeWhile is_token_char t = t" and dw: "dropWhile is_token_char t = []"
    using assms(3) by simp_all
  show ?thesis
    unfolding read_token_def Let_def assms(2) tw dw
    using assms(1,4) by simp
qed

subsection \<open>IPv6 text\<close>

lemma hex_value_hex_char: "d < 16 \<Longrightarrow> hex_value (hex_char d) = Some d"
proof -
  assume "d < 16"
  then have "d \<in> set [0..<16]"
    by simp
  moreover have "list_all (\<lambda>d. hex_value (hex_char d) = Some d) [0..<16]"
    by code_simp
  ultimately show ?thesis
    unfolding list_all_iff by blast
qed

lemma hex_value_colon: "hex_value CHR '':'' = None"
  by (simp add: hex_value_def)

lemma hex_value_slash: "hex_value CHR ''/'' = None"
  by (simp add: hex_value_def)

lemma hex_not_empty: "hex n \<noteq> []"
  by (subst hex.simps) simp

lemma hex_chars: "c \<in> set (hex n) \<Longrightarrow> hex_value c \<noteq> None"
proof (induction n rule: hex.induct)
  case (1 n)
  show ?case
  proof (cases "n < 16")
    case True
    with "1.prems" show ?thesis
      by (subst (asm) hex.simps) (simp add: hex_value_hex_char)
  next
    case False
    with "1.prems" "1.IH" show ?thesis
      by (subst (asm) hex.simps) (auto simp: hex_value_hex_char)
  qed
qed

lemma hex_fold: "foldl (\<lambda>acc c. 16 * acc + the (hex_value c)) 0 (hex n) = n"
proof (induction n rule: hex.induct)
  case (1 n)
  show ?case
  proof (cases "n < 16")
    case True
    then show ?thesis
      by (subst hex.simps) (simp add: hex_value_hex_char)
  next
    case False
    with "1.IH" show ?thesis
      by (subst hex.simps) (simp add: hex_value_hex_char)
  qed
qed

lemma length_hex_group: "n < 65536 \<Longrightarrow> length (hex n) \<le> 4"
proof -
  assume n: "n < 65536"
  have one: "length (hex m) = 1" if "m < 16" for m
    using that by (subst hex.simps) simp
  have two: "length (hex m) \<le> 2" if "m < 256" for m
    using that one [of "m div 16"] one [of m] by (subst hex.simps) auto
  have three: "length (hex m) \<le> 3" if "m < 4096" for m
    using that two [of "m div 16"] one [of m] by (subst hex.simps) auto
  show ?thesis
    using n three [of "n div 16"] one [of n] by (subst hex.simps) auto
qed

lemma hex_group_hex: "hex_group (hex (unat (g :: 16 word))) = Some g"
proof -
  have "unat g < 65536"
    using unsigned_less [of g] by simp
  then show ?thesis
    by (simp add: hex_group_def hex_not_empty length_hex_group hex_fold list_all_iff hex_chars)
qed


lemma split_on_join:
  "ps \<noteq> [] \<Longrightarrow> \<forall>p \<in> set ps. d \<notin> set p \<Longrightarrow> split_on d (join_with d ps) = ps"
  by (induction d ps rule: join_with.induct) (simp_all add: split_on_none split_on_sep)

lemma join_with_not_empty: "ps \<noteq> [] \<Longrightarrow> \<forall>p \<in> set ps. p \<noteq> [] \<Longrightarrow> join_with d ps \<noteq> []"
  by (induction d ps rule: join_with.induct) simp_all

lemma set_join_with: "c \<in> set (join_with d ps) \<Longrightarrow> c = d \<or> (\<exists>p \<in> set ps. c \<in> set p)"
  by (induction d ps rule: join_with.induct) auto

lemma split_gap_skip:
  "CHR '':'' \<notin> set p \<Longrightarrow> rest \<noteq> [] \<Longrightarrow>
   split_gap (p @ rest) = map_option (\<lambda>(l, r). (p @ l, r)) (split_gap rest)"
proof (induction p)
  case Nil
  then show ?case
    by (simp add: option.map_ident)
next
  case (Cons c p)
  then obtain c' cs where "p @ rest = c' # cs"
    by (cases "p @ rest") auto
  with Cons show ?case
    by (auto simp: option.map_comp comp_def case_prod_unfold)
qed

lemma split_gap_colon_free: "CHR '':'' \<notin> set p \<Longrightarrow> split_gap p = None"
  by (induction p rule: split_gap.induct) auto

lemma split_gap_join_none:
  "\<forall>p \<in> set ps. p \<noteq> [] \<and> CHR '':'' \<notin> set p \<Longrightarrow> split_gap (join_with CHR '':'' ps) = None"
proof (induction "CHR '':''" ps rule: join_with.induct)
  case 1
  then show ?case by simp
next
  case (2 p)
  then show ?case by (simp add: split_gap_colon_free)
next
  case (3 p q ps)
  then have "split_gap (join_with CHR '':'' (q # ps)) = None"
    by simp
  moreover obtain c cs where "join_with CHR '':'' (q # ps) = c # cs" and "c \<noteq> CHR '':''"
    using 3(2) by (cases q; cases ps) auto
  ultimately have "split_gap (CHR '':'' # join_with CHR '':'' (q # ps)) = None"
    by simp
  then show ?case
    using 3(2) by (simp add: split_gap_skip)
qed

lemma split_gap_join_gap:
  "\<forall>p \<in> set ps. p \<noteq> [] \<and> CHR '':'' \<notin> set p \<Longrightarrow>
   split_gap (join_with CHR '':'' ps @ ''::'' @ r) = Some (join_with CHR '':'' ps, r)"
proof (induction "CHR '':''" ps rule: join_with.induct)
  case 1
  then show ?case by simp
next
  case (2 p)
  then show ?case by (simp add: split_gap_skip)
next
  case (3 p q ps)
  then have ih: "split_gap (join_with CHR '':'' (q # ps) @ ''::'' @ r) =
      Some (join_with CHR '':'' (q # ps), r)"
    by simp
  obtain c cs where j: "join_with CHR '':'' (q # ps) = c # cs" and c: "c \<noteq> CHR '':''"
    using 3(2) by (cases q; cases ps) auto
  have "split_gap (CHR '':'' # join_with CHR '':'' (q # ps) @ ''::'' @ r) =
      Some (CHR '':'' # join_with CHR '':'' (q # ps), r)"
    using ih j c by simp
  then show ?case
    using 3(2) split_gap_skip [of p "CHR '':'' # join_with CHR '':'' (q # ps) @ ''::'' @ r"]
    by simp
qed


lemma colon_not_in_hex: "CHR '':'' \<notin> set (hex n)"
  using hex_chars [of "CHR '':''" n] by (auto simp: hex_value_colon)

lemma dot_not_in_hex: "CHR ''.'' \<notin> set (hex n)"
  using hex_chars [of "CHR ''.''" n] by (auto simp: hex_value_def)

lemma hex_parts_hex: "hex_parts (map (hex \<circ> unat) xs) = Some xs"
proof -
  have "map hex_group (map (hex \<circ> unat) xs) = map Some xs"
    by (simp add: hex_group_hex)
  then show ?thesis
    by (simp add: hex_parts_def list_all_iff comp_def hex_group_hex)
qed

lemma split_on_hex_texts:
  "xs \<noteq> [] \<Longrightarrow>
   split_on CHR '':'' (join_with CHR '':'' (map (hex \<circ> unat) xs)) = map (hex \<circ> unat) xs"
  by (intro split_on_join) (simp_all add: colon_not_in_hex)

lemma hex_texts_not_empty: "xs \<noteq> [] \<Longrightarrow> join_with CHR '':'' (map (hex \<circ> unat) xs) \<noteq> []"
  by (intro join_with_not_empty) (simp_all add: hex_not_empty)

lemma hex_groups_join: "hex_groups (join_with CHR '':'' (map (hex \<circ> unat) xs)) = Some xs"
proof (cases "xs = []")
  case True
  then show ?thesis
    by (simp add: hex_groups_def)
next
  case False
  then show ?thesis
    using hex_texts_not_empty [OF False] split_on_hex_texts [OF False]
    by (simp add: hex_groups_def hex_parts_hex)
qed

lemma tail_groups_join: "tail_groups (join_with CHR '':'' (map (hex \<circ> unat) xs)) = Some xs"
proof (cases "xs = []")
  case True
  then show ?thesis
    by (simp add: tail_groups_def)
next
  case False
  then have "last (map (hex \<circ> unat) xs) = hex (unat (last xs))"
    by (simp add: last_map)
  then have "CHR ''.'' \<notin> set (last (map (hex \<circ> unat) xs))"
    by (simp add: dot_not_in_hex)
  then show ?thesis
    using hex_texts_not_empty [OF False] split_on_hex_texts [OF False]
    by (simp add: tail_groups_def Let_def hex_parts_hex)
qed

lemma group_of_bytes_group: "group_of_bytes (ucast (drop_bit 8 g)) (ucast g) = (g :: 16 word)"
  unfolding group_of_bytes_def
  by (rule bit_word_eqI) (auto simp: bit_simps)

lemma dotted_quad_chars: "c \<in> set (dotted_quad g6 g7) \<Longrightarrow> is_digit c \<or> c = CHR ''.''"
proof -
  assume "c \<in> set (dotted_quad g6 g7)"
  then have "is_v4_char c"
    unfolding dotted_quad_def by (rule is_v4_char_to_string_v4)
  then show ?thesis
    by (simp add: is_v4_char_def)
qed

lemma from_string_v4_dotted_quad:
  "from_string_v4 (dotted_quad g6 g7) =
     Inr (Address_v4 (ucast (drop_bit 8 g6)) (ucast g6) (ucast (drop_bit 8 g7)) (ucast g7))"
  unfolding dotted_quad_def by (rule from_string_v4_to_string_v4)

lemma colon_not_in_dotted_quad: "CHR '':'' \<notin> set (dotted_quad g6 g7)"
  using dotted_quad_chars [of "CHR '':''" g6 g7] by (auto simp: is_digit_def)

lemma dot_in_dotted_quad: "CHR ''.'' \<in> set (dotted_quad g6 g7)"
  by (simp add: dotted_quad_def)

lemma dotted_quad_not_empty: "dotted_quad g6 g7 \<noteq> []"
  using dot_in_dotted_quad [of g6 g7] by auto

lemma tail_groups_dotted_quad: "tail_groups (dotted_quad g6 g7) = Some [g6, g7]"
proof -
  have "split_on CHR '':'' (dotted_quad g6 g7) = [dotted_quad g6 g7]"
    by (rule split_on_none) (rule colon_not_in_dotted_quad)
  moreover note from_string_v4_dotted_quad [of g6 g7]
  moreover have "hex_parts [] = Some []"
    by (simp add: hex_parts_def)
  ultimately show ?thesis
    by (simp add: tail_groups_def dotted_quad_not_empty dot_in_dotted_quad group_of_bytes_group)
qed

lemma tail_groups_mapped: "tail_groups (''ffff:'' @ dotted_quad g6 g7) = Some [0xFFFF, g6, g7]"
proof -
  have "split_on CHR '':'' (''ffff'' @ CHR '':'' # dotted_quad g6 g7) =
      ''ffff'' # split_on CHR '':'' (dotted_quad g6 g7)"
    by (rule split_on_sep) simp
  moreover have "split_on CHR '':'' (dotted_quad g6 g7) = [dotted_quad g6 g7]"
    by (rule split_on_none) (rule colon_not_in_dotted_quad)
  ultimately have sp: "split_on CHR '':'' (''ffff:'' @ dotted_quad g6 g7) =
      [''ffff'', dotted_quad g6 g7]"
    by simp
  note v4 = from_string_v4_dotted_quad [of g6 g7]
  have hp: "hex_parts [''ffff''] = Some [0xFFFF]"
    by code_simp
  have ne: "''ffff:'' @ dotted_quad g6 g7 \<noteq> []"
    by simp
  show ?thesis
    unfolding tail_groups_def Let_def sp
    using ne v4 hp by (simp add: dot_in_dotted_quad group_of_bytes_group)
qed

lemma hex_texts: "\<forall>p \<in> set (map (hex \<circ> unat) xs). p \<noteq> [] \<and> CHR '':'' \<notin> set p"
  by (simp add: hex_not_empty colon_not_in_hex)

lemma longest_zero_run_step:
  "len = 0 \<or> len = zero_run gs start \<Longrightarrow>
   (case foldl (\<lambda>(start, len) i. if len < zero_run gs i then (i, zero_run gs i) else (start, len))
      (start, len) is of (start', len') \<Rightarrow> len' = 0 \<or> len' = zero_run gs start')"
  by (induction "is" arbitrary: start len) auto

lemma longest_zero_run_is_run:
  "longest_zero_run gs = (start, len) \<Longrightarrow> len = 0 \<or> len = zero_run gs start"
  using longest_zero_run_step [of 0 gs 0 "[0..<length gs]"]
  by (simp add: longest_zero_run_def)

lemma zero_run_split:
  assumes "zero_run gs start = len"
  shows "gs = take start gs @ replicate len 0 @ drop (start + len) gs"
    and "len \<le> length gs - start"
proof -
  let ?run = "takeWhile (\<lambda>g. g = 0) (drop start gs)"
  have len: "length ?run = len"
    using assms by (simp add: zero_run_def)
  have "?run = replicate (length ?run) 0"
    by (rule replicate_length_same [symmetric]) (auto dest: set_takeWhileD)
  with len have run: "?run = replicate len 0"
    by simp
  have "take len (drop start gs) = ?run"
    using takeWhile_eq_take [of "\<lambda>g. g = 0" "drop start gs"] len by simp
  with run have "take len (drop start gs) = replicate len 0"
    by simp
  moreover have "gs = take start gs @ take len (drop start gs) @ drop len (drop start gs)"
    by (simp only: append_take_drop_id)
  ultimately show "gs = take start gs @ replicate len 0 @ drop (start + len) gs"
    by (simp add: add.commute)
  show "len \<le> length gs - start"
    using length_takeWhile_le [of "\<lambda>g. g = 0" "drop start gs"] len by simp
qed

lemma address_of_groups_v6: "address_of_groups (groups_v6 a) = Inr a"
  by (cases a) simp

lemma length_groups_v6: "length (groups_v6 a) = 8"
  by (cases a) simp

lemma from_string_v6_to_string_v6: "from_string_v6 (to_string_v6 a) = Inr a"
proof -
  let ?gs = "groups_v6 a"
  obtain start len where run: "longest_zero_run ?gs = (start, len)"
    by (cases "longest_zero_run ?gs")
  have z: "zero_run ?gs start = len" if "2 \<le> len"
    using that run longest_zero_run_is_run [of ?gs start len] by simp
  consider
    (compatible) "start = 0" "len = 6"
    | (mapped) "start = 0" "len = 5" "?gs ! 5 = 0xFFFF"
    | (gap) "\<not> (start = 0 \<and> len = 6)" "\<not> (start = 0 \<and> len = 5 \<and> ?gs ! 5 = 0xFFFF)" "2 \<le> len"
    | (plain) "\<not> 2 \<le> len"
    by linarith
  then show ?thesis
  proof cases
    case compatible
    with run have t: "to_string_v6 a = ''::'' @ dotted_quad (?gs ! 6) (?gs ! 7)"
      by (simp add: to_string_v6_def Let_def)
    from compatible z have "?gs = take 0 ?gs @ replicate 6 0 @ drop (0 + 6) ?gs"
      by (intro zero_run_split(1)) simp
    then have gs: "replicate 6 0 @ [?gs ! 6, ?gs ! 7] = ?gs"
      by (cases a) (simp add: numeral_eq_Suc)
    have "from_string_v6 (to_string_v6 a) = address_of_groups (replicate 6 0 @ [?gs ! 6, ?gs ! 7])"
      unfolding t from_string_v6_def
      by (simp add: tail_groups_dotted_quad hex_groups_def)
    with gs show ?thesis
      by (simp add: address_of_groups_v6)
  next
    case mapped
    with run have t: "to_string_v6 a = ''::'' @ ''ffff:'' @ dotted_quad (?gs ! 6) (?gs ! 7)"
      by (simp add: to_string_v6_def Let_def)
    from mapped z have "?gs = take 0 ?gs @ replicate 5 0 @ drop (0 + 5) ?gs"
      by (intro zero_run_split(1)) simp
    with mapped(3) have gs: "replicate 5 0 @ [0xFFFF, ?gs ! 6, ?gs ! 7] = ?gs"
      by (cases a) (simp add: numeral_eq_Suc)
    have "from_string_v6 (to_string_v6 a) =
        address_of_groups (replicate 5 0 @ [0xFFFF, ?gs ! 6, ?gs ! 7])"
      unfolding t from_string_v6_def
      by (simp only: append_Cons append_Nil split_gap.simps)
        (simp add: tail_groups_mapped [simplified] hex_groups_def)
    with gs show ?thesis
      by (simp add: address_of_groups_v6)
  next
    case plain
    with run have t: "to_string_v6 a = join_with CHR '':'' (map (hex \<circ> unat) ?gs)"
      by (auto simp: to_string_v6_def Let_def)
    show ?thesis
      unfolding t from_string_v6_def
      by (simp add: split_gap_join_none [OF hex_texts] tail_groups_join address_of_groups_v6)
  next
    case gap
    with run have t: "to_string_v6 a =
        join_with CHR '':'' (map (hex \<circ> unat) (take start ?gs)) @ ''::'' @
        join_with CHR '':'' (map (hex \<circ> unat) (drop (start + len) ?gs))"
      by (auto simp: to_string_v6_def Let_def)
    note sp = zero_run_split [OF z [OF gap(3)]]
    from gap(3) sp(2) have bounds: "start + len \<le> 8"
      by (simp add: length_groups_v6)
    then have lens: "length (take start ?gs) + length (drop (start + len) ?gs) = 8 - len"
      by (simp add: length_groups_v6)
    from gap(3) bounds lens
    have le7: "length (take start ?gs) + length (drop (start + len) ?gs) \<le> 7"
      and rep: "8 - (length (take start ?gs) + length (drop (start + len) ?gs)) = len"
      by arith+
    have "from_string_v6 (to_string_v6 a) =
        address_of_groups (take start ?gs @ replicate len 0 @ drop (start + len) ?gs)"
      unfolding t from_string_v6_def
      by (simp only: split_gap_join_gap [OF hex_texts] hex_groups_join tail_groups_join
          option.case prod.case le7 rep if_True)
    with sp(1) show ?thesis
      by (simp add: address_of_groups_v6)
  qed
qed

lemma is_v6_char_to_string_v6: "c \<in> set (to_string_v6 a) \<Longrightarrow> is_v6_char c"
proof -
  assume c: "c \<in> set (to_string_v6 a)"
  have j: "is_v6_char c"
    if "c \<in> set (join_with CHR '':'' (map (hex \<circ> unat) xs))" for xs :: "16 word list"
    using set_join_with [OF that] by (auto simp: is_v6_char_def dest: hex_chars)
  have d: "is_v6_char c" if "c \<in> set (dotted_quad g6 g7)" for g6 g7
    using dotted_quad_chars [OF that] by (auto simp: is_v6_char_def is_digit_def hex_value_def)
  have f: "is_v6_char CHR ''f''" and col: "is_v6_char CHR '':''"
    by (simp_all add: is_v6_char_def hex_value_def)
  obtain start len where "longest_zero_run (groups_v6 a) = (start, len)"
    by (cases "longest_zero_run (groups_v6 a)")
  with c show ?thesis
    using f col by (auto simp: to_string_v6_def Let_def split: if_splits dest: j d)
qed

subsection \<open>The round trip\<close>

lemma address_reader_accepts:
  assumes "fs (ts a) = Inr a" and "\<And>c. c \<in> set (ts a) \<Longrightarrow> is_token_char c"
    and "\<not> is_token_char CHR ''/''"
  shows "read_token is_token_char (\<lambda>s. \<not> isl (fs s)) (istringstream (ts a @ ''/'' @ n)) out =
    (\<lparr>unread = CHR ''/'' # n, eofbit = False, failbit = False, badbit = False\<rparr>, ts a)"
proof -
  have "read_token is_token_char (\<lambda>s. \<not> isl (fs s)) (istringstream (ts a @ ''/'' @ n)) out =
      ((istringstream (ts a @ ''/'' @ n))\<lparr>unread := CHR ''/'' # n\<rparr>, ts a)"
  proof (rule read_token_accepts)
    show "good (istringstream (ts a @ ''/'' @ n))"
      by (rule good_istringstream)
    show "unread (istringstream (ts a @ ''/'' @ n)) = ts a @ CHR ''/'' # n"
      by (simp add: istringstream_def)
    show "is_token_char c" if "c \<in> set (ts a)" for c
      using that by (rule assms(2))
    show "\<not> is_token_char CHR ''/''"
      by (rule assms(3))
    show "\<not> isl (fs (ts a))"
      by (simp add: assms(1))
  qed
  then show ?thesis
    by (simp add: istringstream_def)
qed

lemma prefix_length_reader_accepts:
  "read_token is_digit (\<lambda>s. s \<noteq> [])
     (ignore \<lparr>unread = CHR ''/'' # dec n, eofbit = False, failbit = False, badbit = False\<rparr>) out =
   (\<lparr>unread = [], eofbit = True, failbit = False, badbit = False\<rparr>, dec n)"
proof -
  let ?is = "\<lparr>unread = dec n, eofbit = False, failbit = False, badbit = False\<rparr>"
  have "read_token is_digit (\<lambda>s. s \<noteq> []) ?is out = (?is\<lparr>unread := [], eofbit := True\<rparr>, dec n)"
  proof (rule read_token_accepts_to_end)
    show "good ?is"
      by (simp add: good_def)
    show "unread ?is = dec n"
      by simp
    show "is_digit c" if "c \<in> set (dec n)" for c
      using that by (rule is_digit_set_dec)
    show "dec n \<noteq> []"
      by (rule dec_not_empty)
  qed
  then show ?thesis
    by (simp add: ignore_def good_def)
qed

text \<open>
  C4: printing a network address of either family and reading the text back gives the
  address again, for every address (any 4 or 16 address bytes) and every prefix length.
  The text is the address's text form, \<open>/\<close>, and the decimal prefix length; reading
  it succeeds (nothing thrown, stream not failed) and returns an equal value. The
  IPv4-compatible and IPv4-mapped addresses, printed with a dotted quad, are among them.
  (The readers are as modelled from the spec.)
\<close>

theorem format_then_parse:
  "(\<forall>v val. operator_in ipv4 (istringstream (operator_out to_string_v4 [] v)) val =
      (None, \<lparr>unread = [], eofbit = True, failbit = False, badbit = False\<rparr>, v))
   \<and> (\<forall>v val. operator_in ipv6 (istringstream (operator_out to_string_v6 [] v)) val =
      (None, \<lparr>unread = [], eofbit = True, failbit = False, badbit = False\<rparr>, v))
   \<and> operator_out to_string_v4 [] (make_network_address (Address_v4 192 168 1 0) 24) =
      ''192.168.1.0/24''
   \<and> operator_out to_string_v6 [] (make_network_address (Address_v6 0xfe80 0 0 0 1 0 0 0xab) 64) =
      ''fe80::1:0:0:ab/64''
   \<and> operator_out to_string_v6 [] (make_network_address (Address_v6 0 0 0 0 0 0xffff 0x102 0x304) 128) =
      ''::ffff:1.2.3.4/128''"
proof (intro conjI allI)
  fix v val :: "address_v4 base_ip_network_address"
  let ?n = "dec (unat (m_prefix_length v))"
  let ?is1 = "\<lparr>unread = CHR ''/'' # ?n, eofbit = False, failbit = False, badbit = False\<rparr>"
  let ?is2 = "\<lparr>unread = [], eofbit = True, failbit = False, badbit = False\<rparr>"
  have codec: "from_string ipv4 (to_string_v4 (m_address v)) = Inr (m_address v)"
    by (simp add: ipv4_def from_string_v4_to_string_v4)
  have "\<not> is_v4_char CHR ''/''"
    by (simp add: is_v4_char_def is_digit_def)
  then have addr: "read_ip_address ipv4 (istringstream (operator_out to_string_v4 [] v)) [] =
      (?is1, to_string_v4 (m_address v))"
    using address_reader_accepts [of from_string_v4 to_string_v4 "m_address v" is_v4_char ?n "[]"]
    by (simp add: ipv4_def operator_out_def from_string_v4_to_string_v4 is_v4_char_to_string_v4)
  have g1: "good ?is1"
    by (simp add: good_def)
  have u1: "unread ?is1 = CHR ''/'' # ?n"
    by simp
  have len: "read_prefix_length ipv4 (ignore ?is1) [] = (?is2, ?n)"
    by (simp add: ipv4_def prefix_length_reader_accepts)
  have nf2: "\<not> fail ?is2"
    by (simp add: fail_def)
  show "operator_in ipv4 (istringstream (operator_out to_string_v4 [] v)) val = (None, ?is2, v)"
    by (rule operator_in_operator_out [OF codec addr g1 u1 len nf2])
next
  fix v val :: "address_v6 base_ip_network_address"
  let ?n = "dec (unat (m_prefix_length v))"
  let ?is1 = "\<lparr>unread = CHR ''/'' # ?n, eofbit = False, failbit = False, badbit = False\<rparr>"
  let ?is2 = "\<lparr>unread = [], eofbit = True, failbit = False, badbit = False\<rparr>"
  have codec: "from_string ipv6 (to_string_v6 (m_address v)) = Inr (m_address v)"
    by (simp add: ipv6_def from_string_v6_to_string_v6)
  have "\<not> is_v6_char CHR ''/''"
    by (simp add: is_v6_char_def hex_value_slash)
  then have addr: "read_ip_address ipv6 (istringstream (operator_out to_string_v6 [] v)) [] =
      (?is1, to_string_v6 (m_address v))"
    using address_reader_accepts [of from_string_v6 to_string_v6 "m_address v" is_v6_char ?n "[]"]
    by (simp add: ipv6_def operator_out_def from_string_v6_to_string_v6 is_v6_char_to_string_v6)
  have g1: "good ?is1"
    by (simp add: good_def)
  have u1: "unread ?is1 = CHR ''/'' # ?n"
    by simp
  have len: "read_prefix_length ipv6 (ignore ?is1) [] = (?is2, ?n)"
    by (simp add: ipv6_def prefix_length_reader_accepts)
  have nf2: "\<not> fail ?is2"
    by (simp add: fail_def)
  show "operator_in ipv6 (istringstream (operator_out to_string_v6 [] v)) val = (None, ?is2, v)"
    by (rule operator_in_operator_out [OF codec addr g1 u1 len nf2])
next
  show "operator_out to_string_v4 [] (make_network_address (Address_v4 192 168 1 0) 24) =
      ''192.168.1.0/24''"
    by code_simp
next
  show "operator_out to_string_v6 [] (make_network_address (Address_v6 0xfe80 0 0 0 1 0 0 0xab) 64) =
      ''fe80::1:0:0:ab/64''"
    by code_simp
next
  show "operator_out to_string_v6 [] (make_network_address (Address_v6 0 0 0 0 0 0xffff 0x102 0x304) 128) =
      ''::ffff:1.2.3.4/128''"
    by code_simp
qed

end
